theory Spec2Isabelle
  imports Main
begin

section \<open>JavaScript values used by the frontend\<close>

text \<open>
  Strings are lists of 8-bit characters. \<open>String.prototype.trim\<close> removes white space and
  line terminators from both ends; in the 8-bit range these are TAB, LF, VT, FF, CR, SPACE
  and NBSP. A string is falsy exactly when it is empty; \<open>undefined\<close> (a missing field) is
  falsy as well and is written \<open>None\<close>.
\<close>

definition is_js_space :: "char \<Rightarrow> bool" where
  "is_js_space c \<longleftrightarrow>
     c = CHR 0x09 \<or> c = CHR 0x0A \<or> c = CHR 0x0B \<or> c = CHR 0x0C \<or> c = CHR 0x0D \<or>
     c = CHR 0x20 \<or> c = CHR 0xA0"

definition trim :: "string \<Rightarrow> string" where
  "trim s = rev (dropWhile is_js_space (rev (dropWhile is_js_space s)))"

definition whitespace_only :: "string \<Rightarrow> bool" where
  "whitespace_only s \<longleftrightarrow> list_all is_js_space s"

definition truthy :: "string option \<Rightarrow> bool" where
  "truthy v = (case v of None \<Rightarrow> False | Some s \<Rightarrow> s \<noteq> [])"

text \<open>\<open>v || ''\<close> as used by the settings form.\<close>

definition or_empty :: "string option \<Rightarrow> string" where
  "or_empty v = (case v of None \<Rightarrow> [] | Some s \<Rightarrow> s)"

datatype jsval = JNull | JBool bool | JNum nat | JStr string

text \<open>
  A thrown value, as the handlers read it: \<open>error.response?.data?.detail\<close> and
  \<open>error.message\<close>.
\<close>

record js_error =
  response_detail :: "string option"
  message :: "string option"

definition SyntaxError :: "string \<Rightarrow> js_error" where
  "SyntaxError m = \<lparr>response_detail = None, message = Some m\<rparr>"

section \<open>Persisted settings (localStorage key apiSettings)\<close>

record settings =
  apiBaseUrl :: "string option"
  apiKey :: "string option"
  model :: "string option"

text \<open>
  The item stored under \<open>apiSettings\<close> is kept as what \<open>localStorage.getItem\<close> followed by
  \<open>JSON.parse\<close> makes of it: \<open>NoItem\<close> when \<open>getItem\<close> returns \<open>null\<close> (or the empty string,
  which is falsy too), \<open>Unparseable m\<close> when the text is not JSON and \<open>JSON.parse\<close> throws a
  SyntaxError with message \<open>m\<close>, and \<open>Parsed r\<close> when it parses to the record \<open>r\<close>.
  \<open>setItem (JSON.stringify r)\<close> therefore stores \<open>Parsed r\<close>.
\<close>

datatype stored = NoItem | Unparseable string | Parsed settings

text \<open>\<open>saved ? JSON.parse(saved) : null\<close> (ChatInterface.js, handleSend).\<close>

definition read_apiSettings :: "stored \<Rightarrow> js_error + settings option" where
  "read_apiSettings saved =
     (case saved of
        NoItem \<Rightarrow> Inr None
      | Unparseable m \<Rightarrow> Inl (SyntaxError m)
      | Parsed r \<Rightarrow> Inr (Some r))"

section \<open>api.js: queryDocument\<close>

type_synonym payload = "string \<rightharpoonup> jsval"

definition opt_num :: "nat option \<Rightarrow> jsval" where
  "opt_num v = (case v of None \<Rightarrow> JNull | Some n \<Rightarrow> JNum n)"

text \<open>\<open>if (v) payload[k] = v\<close>\<close>

definition set_if_truthy :: "payload \<Rightarrow> string \<Rightarrow> string option \<Rightarrow> payload" where
  "set_if_truthy p k v =
     (case v of None \<Rightarrow> p | Some s \<Rightarrow> if s \<noteq> [] then p(k \<mapsto> JStr s) else p)"

text \<open>The body that \<open>queryDocument\<close> builds.\<close>

definition query_payload ::
  "string \<Rightarrow> nat option \<Rightarrow> nat option \<Rightarrow> settings option \<Rightarrow> payload" where
  "query_payload question docId conversationId apiSettings =
     (let payload0 = [''question'' \<mapsto> JStr question, ''doc_id'' \<mapsto> opt_num docId,
                      ''conversation_id'' \<mapsto> opt_num conversationId,
                      ''stream'' \<mapsto> JBool False]
      in case apiSettings of
           None \<Rightarrow> payload0
         | Some st \<Rightarrow>
             set_if_truthy
               (set_if_truthy
                  (set_if_truthy payload0 ''api_base_url'' (apiBaseUrl st))
                  ''api_key'' (apiKey st))
               ''model'' (model st))"

record response =
  answer :: string
  r_citations :: "nat list"
  r_chunks :: "string list"

text \<open>
  \<open>queryDocument\<close> posts this body to \<open>/query\<close> and returns \<open>response.data\<close>, or throws
  what the HTTP client throws. The backend is a parameter \<open>post\<close> of \<open>handleSend\<close> below,
  applied to the body.
\<close>

section \<open>Documents\<close>

record document =
  doc_id :: nat
  doc_name :: string
  page_count :: nat
  file_size :: nat
  upload_date :: string
  processed :: bool

section \<open>ChatInterface.js\<close>

datatype sender = User | Assistant

record msg =
  sender :: sender
  msg_text :: string
  citations :: "nat list option"
  chunks :: "string list option"
  timestamp :: nat

record chat_state =
  messages :: "msg list"
  input :: string
  loading :: bool

definition chat_init :: chat_state where
  "chat_init = \<lparr>messages = [], input = [], loading = False\<rparr>"

text \<open>\<open>error.response?.data?.detail || error.message || 'Unknown error'\<close>\<close>

definition errorMsg :: "js_error \<Rightarrow> string" where
  "errorMsg e =
     (if truthy (response_detail e) then or_empty (response_detail e)
      else if truthy (message e) then or_empty (message e)
      else ''Unknown error'')"

text \<open>
  The part of \<open>handleSend\<close> after \<open>await\<close>: the success branch of \<open>try\<close>, the \<open>catch\<close> branch,
  and \<open>finally\<close>. The second argument is the time \<open>new Date()\<close> gives there.
\<close>

definition handleSend_settle :: "js_error + response \<Rightarrow> nat \<Rightarrow> chat_state \<Rightarrow> chat_state" where
  "handleSend_settle r now s =
     (case r of
        Inr resp \<Rightarrow>
          s\<lparr>messages := messages s @
               [\<lparr>sender = Assistant, msg_text = answer resp,
                 citations = Some (r_citations resp), chunks = Some (r_chunks resp),
                 timestamp = now\<rparr>],
            loading := False\<rparr>
      | Inl err \<Rightarrow>
          s\<lparr>messages := messages s @
               [\<lparr>sender = Assistant, msg_text = ''Error: '' @ errorMsg err,
                 citations = None, chunks = None, timestamp = now\<rparr>],
            loading := False\<rparr>)"

text \<open>
  The part of \<open>handleSend\<close> that runs before the first \<open>await\<close>. It ends in one of three
  ways: the guard returns (\<open>Rejected\<close>), the query is posted and the function waits for
  the answer (\<open>Awaiting\<close>, with the state at that moment and the body posted), or
  \<open>JSON.parse\<close> throws inside \<open>try\<close> and the handler runs to its end without posting
  anything (\<open>Finished\<close>).
\<close>

datatype send_step = Rejected | Awaiting chat_state payload | Finished chat_state chat_state

definition userMsg :: "chat_state \<Rightarrow> nat \<Rightarrow> msg" where
  "userMsg s now =
     \<lparr>sender = User, msg_text = input s, citations = None, chunks = None, timestamp = now\<rparr>"

definition handleSend_begin ::
  "document option \<Rightarrow> nat option \<Rightarrow> stored \<Rightarrow> nat \<Rightarrow> nat \<Rightarrow> chat_state \<Rightarrow> send_step" where
  "handleSend_begin doc conversationId saved now now' s =
     (if trim (input s) = [] \<or> loading s then Rejected
      else
        let s1 = s\<lparr>messages := messages s @ [userMsg s now], input := [], loading := True\<rparr>
        in case read_apiSettings saved of
             Inl err \<Rightarrow> Finished s1 (handleSend_settle (Inl err) now' s1)
           | Inr apiSettings \<Rightarrow>
               Awaiting s1 (query_payload (input s) (map_option doc_id doc) conversationId
                              apiSettings))"

text \<open>A backend that gives the same answer to every request.\<close>

definition answering :: "'r \<Rightarrow> 'q \<Rightarrow> 'r" where
  "answering r q = r"

text \<open>
  The whole call: the state when the handler has finished, and the bodies posted to
  \<open>/query\<close> on the way.
\<close>

definition handleSend ::
  "(payload \<Rightarrow> js_error + response) \<Rightarrow> document option \<Rightarrow> nat option \<Rightarrow> stored \<Rightarrow>
   nat \<Rightarrow> nat \<Rightarrow> chat_state \<Rightarrow> chat_state \<times> payload list" where
  "handleSend post doc conversationId saved now now' s =
     (case handleSend_begin doc conversationId saved now now' s of
        Rejected \<Rightarrow> (s, [])
      | Finished s1 s2 \<Rightarrow> (s2, [])
      | Awaiting s1 p \<Rightarrow> (handleSend_settle (post p) now' s1, [p]))"

section \<open>SettingsModal.js\<close>

record settings_form =
  form_apiBaseUrl :: string
  form_apiKey :: string
  form_model :: string
  form_saved :: bool

definition form_init :: settings_form where
  "form_init = \<lparr>form_apiBaseUrl = [], form_apiKey = [], form_model = [], form_saved = False\<rparr>"

text \<open>
  The effect that runs when \<open>isOpen\<close> changes. \<open>JSON.parse\<close> is not inside a \<open>try\<close> here: a
  SyntaxError leaves the effect as an exception (\<open>Inl\<close>).
\<close>

definition settings_effect :: "stored \<Rightarrow> settings_form \<Rightarrow> js_error + settings_form" where
  "settings_effect saved f =
     (case saved of
        NoItem \<Rightarrow> Inr f
      | Unparseable m \<Rightarrow> Inl (SyntaxError m)
      | Parsed st \<Rightarrow>
          Inr (f\<lparr>form_apiBaseUrl := or_empty (apiBaseUrl st),
                 form_apiKey := or_empty (apiKey st),
                 form_model := or_empty (model st)\<rparr>))"

text \<open>
  \<open>handleSave\<close>: the second argument is the item stored before the call, the result holds
  the item stored after it.
\<close>

definition handleSave :: "settings_form \<Rightarrow> stored \<Rightarrow> stored \<times> settings_form" where
  "handleSave f saved =
     (let st = \<lparr>apiBaseUrl = Some (trim (form_apiBaseUrl f)),
                 apiKey = Some (trim (form_apiKey f)),
                 model = Some (trim (form_model f))\<rparr>
      in (if truthy (apiBaseUrl st) \<or> truthy (apiKey st) \<or> truthy (model st)
          then Parsed st else NoItem,
          f\<lparr>form_saved := True\<rparr>))"

definition handleClear :: "settings_form \<Rightarrow> stored \<Rightarrow> stored \<times> settings_form" where
  "handleClear f saved =
     (NoItem, f\<lparr>form_apiBaseUrl := [], form_apiKey := [], form_model := [], form_saved := True\<rparr>)"

text \<open>
  What the claims call trimming: \<open>t\<close> is \<open>s\<close> without a prefix and a suffix of white space,
  and \<open>t\<close> itself neither starts nor ends with white space.
\<close>

definition trimmed_of :: "string \<Rightarrow> string \<Rightarrow> bool" where
  "trimmed_of t s \<longleftrightarrow>
     (\<exists>a b. s = a @ t @ b \<and> whitespace_only a \<and> whitespace_only b) \<and>
     (case t of [] \<Rightarrow> True | c # _ \<Rightarrow> \<not> is_js_space c \<and> \<not> is_js_space (last t))"

section \<open>DocumentUpload: onDrop\<close>

record jsfile =
  file_name :: string
  file_body :: string

datatype status = Uploading | Success | Error

record upload_task =
  name :: string
  status :: status
  task_id :: "nat option"
  task_error :: "string option"

definition terminal :: "status \<Rightarrow> bool" where
  "terminal st \<longleftrightarrow> st = Success \<or> st = Error"

text \<open>
  The component's state (\<open>uploading\<close>, \<open>progress\<close>) together with the backend and with
  what the handler does to the outside: \<open>calls\<close> logs every call of \<open>uploadDocument\<close> with
  the value of \<open>progress\<close> at that moment, \<open>reported\<close> logs the arguments of the
  \<open>onUploadSuccess\<close> calls, and \<open>refreshTrigger\<close> is the counter of \<open>App\<close> that its
  \<open>handleUploadSuccess\<close> increments. State setters take effect in program order.
\<close>

record 'b upload_world =
  backend :: 'b
  uploading :: bool
  progress :: "upload_task list"
  calls :: "(jsfile \<times> upload_task list) list"
  reported :: "document list"
  refreshTrigger :: nat

text \<open>\<open>prev.map((p, idx) => idx === i ? f(p) : p)\<close>\<close>

definition map_at :: "nat \<Rightarrow> ('a \<Rightarrow> 'a) \<Rightarrow> 'a list \<Rightarrow> 'a list" where
  "map_at i f xs = map (\<lambda>(idx, p). if idx = i then f p else p) (enumerate 0 xs)"

text \<open>One iteration of the \<open>for\<close> loop of \<open>onDrop\<close>, for index \<open>i < files.length\<close>.\<close>

definition onDrop_step ::
  "('b \<Rightarrow> jsfile \<Rightarrow> (js_error + document) \<times> 'b) \<Rightarrow> jsfile list \<Rightarrow> nat \<Rightarrow>
   'b upload_world \<Rightarrow> 'b upload_world" where
  "onDrop_step uploadDocument files i w =
     (let (r, b') = uploadDocument (backend w) (files ! i);
          w1 = w\<lparr>backend := b', calls := calls w @ [(files ! i, progress w)]\<rparr>
      in case r of
           Inr result \<Rightarrow>
             w1\<lparr>progress :=
                  map_at i (\<lambda>p. p\<lparr>status := Success, task_id := Some (doc_id result)\<rparr>)
                    (progress w1),
                reported := reported w1 @ [result],
                refreshTrigger := Suc (refreshTrigger w1)\<rparr>
         | Inl err \<Rightarrow>
             w1\<lparr>progress :=
                  map_at i (\<lambda>p. p\<lparr>status := Error, task_error := message err\<rparr>)
                    (progress w1)\<rparr>)"

function onDrop_loop ::
  "('b \<Rightarrow> jsfile \<Rightarrow> (js_error + document) \<times> 'b) \<Rightarrow> jsfile list \<Rightarrow> nat \<Rightarrow>
   'b upload_world \<Rightarrow> 'b upload_world" where
  "onDrop_loop uploadDocument files i w =
     (if i < length files
      then onDrop_loop uploadDocument files (Suc i) (onDrop_step uploadDocument files i w)
      else w)"
  by pat_completeness auto
termination
  by (relation "measure (\<lambda>(u, files, i, w). length files - i)") auto

definition new_task :: "jsfile \<Rightarrow> upload_task" where
  "new_task f = \<lparr>name = file_name f, status = Uploading, task_id = None, task_error = None\<rparr>"

text \<open>\<open>onDrop\<close> up to and including \<open>setUploading(false)\<close>.\<close>

definition onDrop ::
  "('b \<Rightarrow> jsfile \<Rightarrow> (js_error + document) \<times> 'b) \<Rightarrow> jsfile list \<Rightarrow>
   'b upload_world \<Rightarrow> 'b upload_world" where
  "onDrop uploadDocument files w =
     (onDrop_loop uploadDocument files 0
        (w\<lparr>uploading := True, progress := map new_task files\<rparr>))
       \<lparr>uploading := False\<rparr>"

text \<open>The timer set at the end of \<open>onDrop\<close>, when it fires three seconds later.\<close>

definition onDrop_timeout :: "'b upload_world \<Rightarrow> 'b upload_world" where
  "onDrop_timeout w = w\<lparr>progress := []\<rparr>"

text \<open>
  What the backend answers when it is asked once for each file, in order; used to state
  what a batch must produce.
\<close>

fun outcomes ::
  "('b \<Rightarrow> jsfile \<Rightarrow> (js_error + document) \<times> 'b) \<Rightarrow> 'b \<Rightarrow> jsfile list \<Rightarrow>
   (js_error + document) list" where
  "outcomes uploadDocument b [] = []"
| "outcomes uploadDocument b (f # fs) =
     fst (uploadDocument b f) # outcomes uploadDocument (snd (uploadDocument b f)) fs"

definition task_for :: "jsfile \<Rightarrow> js_error + document \<Rightarrow> upload_task" where
  "task_for f r =
     (case r of
        Inr d \<Rightarrow> \<lparr>name = file_name f, status = Success, task_id = Some (doc_id d),
                  task_error = None\<rparr>
      | Inl e \<Rightarrow> \<lparr>name = file_name f, status = Error, task_id = None,
                  task_error = message e\<rparr>)"

definition successes :: "(js_error + document) list \<Rightarrow> document list" where
  "successes rs = List.map_filter (\<lambda>r. case r of Inl e \<Rightarrow> None | Inr d \<Rightarrow> Some d) rs"

definition failures :: "(js_error + document) list \<Rightarrow> nat" where
  "failures rs = length (filter isl rs)"

text \<open>The two updaters that \<open>onDrop\<close> applies to the task of the file just tried.\<close>

definition settle_task :: "js_error + document \<Rightarrow> upload_task \<Rightarrow> upload_task" where
  "settle_task r p =
     (case r of
        Inr d \<Rightarrow> p\<lparr>status := Success, task_id := Some (doc_id d)\<rparr>
      | Inl e \<Rightarrow> p\<lparr>status := Error, task_error := message e\<rparr>)"

definition settled_before :: "nat \<Rightarrow> upload_task list \<Rightarrow> bool" where
  "settled_before k ts \<longleftrightarrow> list_all (\<lambda>t. terminal (status t)) (take k ts)"

text \<open>
  A backend for the worked scenarios: it rejects a file without content, accepts any
  other, and numbers the documents by the requests it has seen.
\<close>

definition sample_uploadDocument :: "nat \<Rightarrow> jsfile \<Rightarrow> (js_error + document) \<times> nat" where
  "sample_uploadDocument b f =
     (if file_body f = []
      then Inl \<lparr>response_detail = Some ''file too large'',
                 message = Some ''Request failed with status code 413''\<rparr>
      else Inr \<lparr>doc_id = b, doc_name = file_name f, page_count = 1,
                 file_size = length (file_body f), upload_date = ''2024-05-01'',
                 processed = False\<rparr>,
      Suc b)"

section \<open>App.js: selection and the chat view\<close>

datatype tab = TabDocuments | TabUpload | TabChat

text \<open>
  The state of \<open>App\<close> that decides what the chat view shows, and the state of the
  \<open>ChatInterface\<close> instance it renders (\<open>None\<close> while none is rendered). \<open>App\<close> renders
  \<open>ChatInterface\<close> without a key, at one place, when \<open>activeTab === 'chat' || selectedDoc\<close>;
  a component instance keeps its state for as long as it stays rendered and starts from
  its initial state when it is rendered anew.
\<close>

record app =
  activeTab :: tab
  selectedDoc :: "document option"
  chat :: "chat_state option"

definition chat_rendered :: "app \<Rightarrow> bool" where
  "chat_rendered a \<longleftrightarrow> activeTab a = TabChat \<or> selectedDoc a \<noteq> None"

definition rerender :: "app \<Rightarrow> app" where
  "rerender a =
     a\<lparr>chat := (if chat_rendered a
                 then (case chat a of None \<Rightarrow> Some chat_init | Some c \<Rightarrow> Some c)
                 else None)\<rparr>"

definition app_init :: app where
  "app_init = rerender \<lparr>activeTab = TabDocuments, selectedDoc = None, chat = None\<rparr>"

definition handleDocSelect :: "document option \<Rightarrow> app \<Rightarrow> app" where
  "handleDocSelect doc a =
     rerender (a\<lparr>selectedDoc := doc,
                 activeTab := (if doc \<noteq> None then TabChat else activeTab a)\<rparr>)"

definition setActiveTab :: "tab \<Rightarrow> app \<Rightarrow> app" where
  "setActiveTab t a = rerender (a\<lparr>activeTab := t\<rparr>)"

text \<open>The text area's \<open>onChange\<close>.\<close>

definition setInput :: "string \<Rightarrow> app \<Rightarrow> app" where
  "setInput v a = a\<lparr>chat := map_option (\<lambda>c. c\<lparr>input := v\<rparr>) (chat a)\<rparr>"

text \<open>
  A submit in the rendered chat view. \<open>App\<close> passes \<open>document={selectedDoc}\<close> and no
  \<open>conversationId\<close>.
\<close>

definition app_send ::
  "(payload \<Rightarrow> js_error + response) \<Rightarrow> stored \<Rightarrow> nat \<Rightarrow> nat \<Rightarrow> app \<Rightarrow> app \<times> payload list" where
  "app_send post saved now now' a =
     (case chat a of
        None \<Rightarrow> (a, [])
      | Some c \<Rightarrow>
          (let (c', reqs) = handleSend post (selectedDoc a) None saved now now' c
           in (a\<lparr>chat := Some c'\<rparr>, reqs)))"

section \<open>DocumentList.js and api.js: getDocuments, deleteDocument\<close>

record doclist_state =
  docs :: "document list"
  list_loading :: bool
  selectedId :: "nat option"

definition doclist_init :: doclist_state where
  "doclist_init = \<lparr>docs = [], list_loading = True, selectedId = None\<rparr>"

text \<open>
  \<open>getDocuments(skip = 0, limit = 100)\<close>: an argument left out is \<open>None\<close>. The first
  parameter is the backend's answer to \<open>GET /documents\<close> for the given \<open>skip\<close> and \<open>limit\<close>;
  the result holds the answer and the parameters sent.
\<close>

definition getDocuments ::
  "(nat \<Rightarrow> nat \<Rightarrow> js_error + document list) \<Rightarrow> nat option \<Rightarrow> nat option \<Rightarrow>
   (js_error + document list) \<times> (nat \<times> nat)" where
  "getDocuments get skip limit =
     (let skip' = (case skip of None \<Rightarrow> 0 | Some k \<Rightarrow> k);
          limit' = (case limit of None \<Rightarrow> 100 | Some k \<Rightarrow> k)
      in (get skip' limit', (skip', limit')))"

text \<open>\<open>loadDocs\<close>: the state afterwards and the parameters of the requests sent.\<close>

definition loadDocs ::
  "(nat \<Rightarrow> nat \<Rightarrow> js_error + document list) \<Rightarrow> doclist_state \<Rightarrow>
   doclist_state \<times> (nat \<times> nat) list" where
  "loadDocs get s =
     (let s1 = s\<lparr>list_loading := True\<rparr>;
          (r, params) = getDocuments get None None
      in (case r of
            Inr ds \<Rightarrow> s1\<lparr>docs := ds, list_loading := False\<rparr>
          | Inl err \<Rightarrow> s1\<lparr>list_loading := False\<rparr>,
          [params]))"

text \<open>
  Modelled from the spec: the backend's handler of \<open>GET /documents?skip&limit\<close>, which is
  not part of the frontend sources. It answers with the documents it holds, leaving out the
  first \<open>skip\<close> and returning at most \<open>limit\<close>.
\<close>

definition backend_documents :: "document list \<Rightarrow> nat \<Rightarrow> nat \<Rightarrow> js_error + document list" where
  "backend_documents held skip limit = Inr (take limit (drop skip held))"

text \<open>
  \<open>handleDelete\<close>, after \<open>e.stopPropagation()\<close>. \<open>confirmed\<close> is the answer of
  \<open>window.confirm\<close>; \<open>onSelectDocument\<close> is \<open>handleDocSelect\<close> of \<open>App\<close>. The result holds the
  two states, the texts shown with \<open>alert\<close>, and the ids sent to \<open>DELETE /documents/{id}\<close>.
\<close>

definition handleDelete ::
  "(nat \<Rightarrow> js_error + unit) \<Rightarrow> bool \<Rightarrow> nat \<Rightarrow> doclist_state \<Rightarrow> app \<Rightarrow>
   (doclist_state \<times> app) \<times> string list \<times> nat list" where
  "handleDelete deleteDocument confirmed docId s a =
     (if confirmed then
        (case deleteDocument docId of
           Inr ack \<Rightarrow>
             (let s1 = s\<lparr>docs := filter (\<lambda>doc. doc_id doc \<noteq> docId) (docs s)\<rparr>
              in if selectedId s = Some docId
                 then ((s1\<lparr>selectedId := None\<rparr>, handleDocSelect None a), [], [docId])
                 else ((s1, a), [], [docId]))
         | Inl err \<Rightarrow> ((s, a), [''Failed to delete document''], [docId]))
      else ((s, a), [], []))"

text \<open>A document with the given id, for the worked scenarios.\<close>

definition sample_doc :: "nat \<Rightarrow> document" where
  "sample_doc n = \<lparr>doc_id = n, doc_name = ''report.pdf'', page_count = 12, file_size = 2048,
                    upload_date = ''2024-05-01'', processed = True\<rparr>"

definition handleSelect :: "document \<Rightarrow> doclist_state \<Rightarrow> app \<Rightarrow> doclist_state \<times> app" where
  "handleSelect doc s a = (s\<lparr>selectedId := Some (doc_id doc)\<rparr>, handleDocSelect (Some doc) a)"

section \<open>Guard of handleSend\<close>

lemma dropWhile_all_iff: "(\<forall>x\<in>set (dropWhile P xs). P x) \<longleftrightarrow> (\<forall>x\<in>set xs. P x)"
proof
  assume a: "\<forall>x\<in>set (dropWhile P xs). P x"
  have "dropWhile P xs = []"
  proof (rule ccontr)
    assume ne: "dropWhile P xs \<noteq> []"
    then have "\<not> P (hd (dropWhile P xs))" by (rule hd_dropWhile)
    moreover from ne have "hd (dropWhile P xs) \<in> set (dropWhile P xs)" by simp
    ultimately show False using a by blast
  qed
  then show "\<forall>x\<in>set xs. P x" by (simp add: dropWhile_eq_Nil_conv)
next
  assume "\<forall>x\<in>set xs. P x"
  then show "\<forall>x\<in>set (dropWhile P xs). P x" by (blast dest: set_dropWhileD)
qed

lemma trim_empty_iff: "trim s = [] \<longleftrightarrow> whitespace_only s"
  by (simp add: trim_def whitespace_only_def dropWhile_eq_Nil_conv dropWhile_all_iff
      list_all_iff)

text \<open>
  C1. Calling submit while \<open>loading\<close> (pending) is true, or with a question that is empty
  or consists of white space only, is a no-op: the state, and so the message sequence, is
  unchanged and no body is posted to \<open>/query\<close>.
\<close>

theorem handleSend_noop:
  "loading s \<or> input s = [] \<or> whitespace_only (input s) \<Longrightarrow>
   handleSend post doc conversationId saved now now' s = (s, [])"
  by (auto simp: handleSend_def handleSend_begin_def trim_empty_iff whitespace_only_def)


theorem handleSend_noop_witness:
  "loading \<lparr>messages = [], input = ''hi'', loading = True\<rparr> \<and>
   handleSend (answering (Inl (SyntaxError ''down''))) None None NoItem 1 2
     \<lparr>messages = [], input = ''hi'', loading = True\<rparr>
   = (\<lparr>messages = [], input = ''hi'', loading = True\<rparr>, [])"
  using handleSend_noop [of "\<lparr>messages = [], input = ''hi'', loading = True\<rparr>"
      "answering (Inl (SyntaxError ''down''))" None None NoItem 1 2]
  by simp

section \<open>Message append law\<close>

lemma settle_messages:
  "\<exists>m. sender m = Assistant \<and> messages (handleSend_settle r now s) = messages s @ [m]
     \<and> \<not> loading (handleSend_settle r now s)"
  by (cases r) (simp_all add: handleSend_settle_def)

text \<open>
  C2. Every accepted submit (not pending, question not blank) makes the message sequence
  longer by exactly two: first the user message, with sender \<open>user\<close> and the question as
  typed as its text, which is already in the state when the query is posted, and then one
  message with sender \<open>assistant\<close>, whatever the outcome of the query (and also when
  reading the settings throws before anything is posted).
\<close>

theorem handleSend_grows_by_two:
  assumes "\<not> loading s" and "\<not> whitespace_only (input s)"
  shows "(\<exists>m. sender m = Assistant \<and>
            messages (fst (handleSend post doc cid saved now now' s)) =
              messages s @
              [\<lparr>sender = User, msg_text = input s, citations = None, chunks = None,
                timestamp = now\<rparr>, m]) \<and>
         length (messages (fst (handleSend post doc cid saved now now' s))) =
           length (messages s) + 2 \<and>
         userMsg s now =
           \<lparr>sender = User, msg_text = input s, citations = None, chunks = None,
             timestamp = now\<rparr> \<and>
         (case handleSend_begin doc cid saved now now' s of
            Rejected \<Rightarrow> False
          | Awaiting s1 p \<Rightarrow>
              messages s1 = messages s @ [userMsg s now] \<and> loading s1 \<and>
              snd (handleSend post doc cid saved now now' s) = [p]
          | Finished s1 s2 \<Rightarrow>
              messages s1 = messages s @ [userMsg s now] \<and>
              snd (handleSend post doc cid saved now now' s) = [])"
proof -
  let ?s1 = "s\<lparr>messages := messages s @ [userMsg s now], input := [], loading := True\<rparr>"
  have u: "userMsg s now =
      \<lparr>sender = User, msg_text = input s, citations = None, chunks = None, timestamp = now\<rparr>"
    by (simp add: userMsg_def)
  from assms have g: "\<not> (trim (input s) = [] \<or> loading s)"
    by (simp add: trim_empty_iff)
  have main: "(\<exists>m. sender m = Assistant \<and>
            messages (fst (handleSend post doc cid saved now now' s)) =
              messages s @ [userMsg s now, m]) \<and>
         length (messages (fst (handleSend post doc cid saved now now' s))) =
           length (messages s) + 2 \<and>
         (case handleSend_begin doc cid saved now now' s of
            Rejected \<Rightarrow> False
          | Awaiting s1 p \<Rightarrow>
              messages s1 = messages s @ [userMsg s now] \<and> loading s1 \<and>
              snd (handleSend post doc cid saved now now' s) = [p]
          | Finished s1 s2 \<Rightarrow>
              messages s1 = messages s @ [userMsg s now] \<and>
              snd (handleSend post doc cid saved now now' s) = [])"
  proof (cases "read_apiSettings saved")
    case (Inl err)
    with g have b: "handleSend_begin doc cid saved now now' s =
        Finished ?s1 (handleSend_settle (Inl err) now' ?s1)"
      by (simp add: handleSend_begin_def Let_def)
    obtain m where "sender m = Assistant"
      "messages (handleSend_settle (Inl err) now' ?s1) = messages ?s1 @ [m]"
      using settle_messages by blast
    with b show ?thesis by (simp add: handleSend_def)
  next
    case (Inr st)
    let ?p = "query_payload (input s) (map_option doc_id doc) cid st"
    from Inr g have b: "handleSend_begin doc cid saved now now' s = Awaiting ?s1 ?p"
      by (simp add: handleSend_begin_def Let_def)
    obtain m where "sender m = Assistant"
      "messages (handleSend_settle (post ?p) now' ?s1) = messages ?s1 @ [m]"
      using settle_messages by blast
    with b show ?thesis by (simp add: handleSend_def)
  qed
  from main show ?thesis unfolding u by (simp only: u simp_thms)
qed

theorem handleSend_grows_by_two_witness:
  "\<not> loading \<lparr>messages = [], input = ''What is the total revenue?'', loading = False\<rparr> \<and>
   \<not> whitespace_only
        (input \<lparr>messages = [], input = ''What is the total revenue?'', loading = False\<rparr>) \<and>
   length (messages (fst (handleSend
        (answering (Inr \<lparr>answer = ''$4.2M'', r_citations = [3, 7], r_chunks = []\<rparr>))
        None None NoItem 1 2
        \<lparr>messages = [], input = ''What is the total revenue?'', loading = False\<rparr>))) = 2 \<and>
   map sender (messages (fst (handleSend
        (answering (Inr \<lparr>answer = ''$4.2M'', r_citations = [3, 7], r_chunks = []\<rparr>))
        None None NoItem 1 2
        \<lparr>messages = [], input = ''What is the total revenue?'', loading = False\<rparr>))) =
     [User, Assistant]"
proof -
  define s where "s = \<lparr>messages = [], input = ''What is the total revenue?'', loading = False\<rparr>"
  define post where
    "post = (answering (Inr \<lparr>answer = ''$4.2M'', r_citations = [3, 7], r_chunks = []\<rparr>)
              :: payload \<Rightarrow> js_error + response)"
  define ms where "ms = messages (fst (handleSend post None None NoItem 1 2 s))"
  have h1: "\<not> loading s" by (simp add: s_def)
  have h2: "\<not> whitespace_only (input s)"
    by (simp add: s_def whitespace_only_def is_js_space_def)
  have e: "messages s = []" by (simp add: s_def)
  from handleSend_grows_by_two [OF h1 h2, of post None None NoItem 1 2]
  obtain m where m: "sender m = Assistant"
    "ms = messages s @
       [\<lparr>sender = User, msg_text = input s, citations = None, chunks = None, timestamp = 1\<rparr>, m]"
    unfolding ms_def by blast
  from m e have "length ms = 2 \<and> map sender ms = [User, Assistant]" by simp
  with h1 h2 show ?thesis unfolding ms_def post_def s_def by blast
qed

section \<open>Settings overrides in the query body\<close>

lemma set_if_truthy_apply:
  "set_if_truthy p k v k' =
     (if k' = k \<and> truthy v then map_option JStr v else p k')"
  by (cases v) (simp_all add: set_if_truthy_def truthy_def)

lemma dom_set_if_truthy:
  "dom (set_if_truthy p k v) = dom p \<union> {x. x = k \<and> truthy v}"
  by (cases v) (auto simp: set_if_truthy_def truthy_def)

lemma query_payload_overrides:
  "query_payload q d c (Some st) ''api_base_url'' =
     (if truthy (apiBaseUrl st) then map_option JStr (apiBaseUrl st) else None)"
  "query_payload q d c (Some st) ''api_key'' =
     (if truthy (apiKey st) then map_option JStr (apiKey st) else None)"
  "query_payload q d c (Some st) ''model'' =
     (if truthy (model st) then map_option JStr (model st) else None)"
  by (simp_all add: query_payload_def set_if_truthy_apply)

lemma dom_query_payload:
  "dom (query_payload q d c (Some st)) =
     {''question'', ''doc_id'', ''conversation_id'', ''stream''} \<union>
     {k. k = ''api_base_url'' \<and> truthy (apiBaseUrl st)} \<union>
     {k. k = ''api_key'' \<and> truthy (apiKey st)} \<union>
     {k. k = ''model'' \<and> truthy (model st)}"
proof -
  have "dom [''question'' \<mapsto> JStr q, ''doc_id'' \<mapsto> opt_num d,
             ''conversation_id'' \<mapsto> opt_num c, ''stream'' \<mapsto> JBool False] =
        {''question'', ''doc_id'', ''conversation_id'', ''stream''}"
    by (simp only: dom_fun_upd dom_empty option.simps if_False) blast
  then show ?thesis
    by (simp only: query_payload_def Let_def option.case dom_set_if_truthy)
qed

lemma handleSend_posts:
  assumes "\<not> loading s" and "\<not> whitespace_only (input s)"
    and "read_apiSettings saved = Inr st"
  shows "snd (handleSend post doc cid saved now now' s) =
           [query_payload (input s) (map_option doc_id doc) cid st]"
  using assms by (simp add: handleSend_def handleSend_begin_def trim_empty_iff Let_def)

text \<open>
  C6. For every settings record that the store holds, the body posted by an accepted
  submit has the key \<open>api_base_url\<close>, \<open>api_key\<close> or \<open>model\<close> exactly when the matching
  settings field is present and not empty, with that field as its value; besides these it
  has the four keys \<open>question\<close>, \<open>doc_id\<close>, \<open>conversation_id\<close> and \<open>stream\<close> and no others.
  An empty field is never sent as an empty string.
\<close>

theorem query_body_overrides:
  assumes "\<not> loading s" and "\<not> whitespace_only (input s)"
  shows "\<exists>p. snd (handleSend post doc cid (Parsed st) now now' s) = [p] \<and>
     p ''api_base_url'' =
       (if truthy (apiBaseUrl st) then map_option JStr (apiBaseUrl st) else None) \<and>
     p ''api_key'' = (if truthy (apiKey st) then map_option JStr (apiKey st) else None) \<and>
     p ''model'' = (if truthy (model st) then map_option JStr (model st) else None) \<and>
     dom p = {''question'', ''doc_id'', ''conversation_id'', ''stream''} \<union>
             {k. k = ''api_base_url'' \<and> truthy (apiBaseUrl st)} \<union>
             {k. k = ''api_key'' \<and> truthy (apiKey st)} \<union>
             {k. k = ''model'' \<and> truthy (model st)}"
proof -
  have "read_apiSettings (Parsed st) = Inr (Some st)"
    by (simp add: read_apiSettings_def)
  with assms have "snd (handleSend post doc cid (Parsed st) now now' s) =
      [query_payload (input s) (map_option doc_id doc) cid (Some st)]"
    by (rule handleSend_posts)
  then show ?thesis
    using query_payload_overrides [of "input s" "map_option doc_id doc" cid st]
      dom_query_payload [of "input s" "map_option doc_id doc" cid st]
    by simp
qed

theorem query_body_overrides_witness:
  "\<exists>p. snd (handleSend (answering (Inl (SyntaxError ''down''))) None None
             (Parsed \<lparr>apiBaseUrl = Some [], apiKey = Some ''k'', model = None\<rparr>) 1 2
             \<lparr>messages = [], input = ''hi'', loading = False\<rparr>) = [p] \<and>
       p ''api_base_url'' = None \<and> p ''api_key'' = Some (JStr ''k'') \<and> p ''model'' = None \<and>
       dom p = {''question'', ''doc_id'', ''conversation_id'', ''stream'', ''api_key''}"
proof -
  have h1: "\<not> loading \<lparr>messages = [], input = ''hi'', loading = False\<rparr>" by simp
  have h2: "\<not> whitespace_only (input \<lparr>messages = [], input = ''hi'', loading = False\<rparr>)"
    by (simp add: whitespace_only_def is_js_space_def)
  from query_body_overrides [OF h1 h2, of "answering (Inl (SyntaxError ''down''))" None None
      "\<lparr>apiBaseUrl = Some [], apiKey = Some ''k'', model = None\<rparr>" 1 2]
  obtain p where p: "snd (handleSend (answering (Inl (SyntaxError ''down''))) None None
             (Parsed \<lparr>apiBaseUrl = Some [], apiKey = Some ''k'', model = None\<rparr>) 1 2
             \<lparr>messages = [], input = ''hi'', loading = False\<rparr>) = [p]"
    "p ''api_base_url'' = None" "p ''api_key'' = Some (JStr ''k'')" "p ''model'' = None"
    "dom p = {''question'', ''doc_id'', ''conversation_id'', ''stream''} \<union> {k. k = ''api_key''}"
    by (auto simp: truthy_def)
  then show ?thesis by auto
qed



section \<open>Reading the persisted settings\<close>

text \<open>
  C8 as stated does not hold: a read of a corrupt record raises. With an unparseable item
  under \<open>apiSettings\<close>, \<open>JSON.parse\<close> throws in both places that read it; in \<open>handleSend\<close>
  the exception reaches \<open>catch\<close>, so the submit ends with an error message and posts
  nothing.
\<close>

theorem corrupt_settings_read_counterexample:
  "read_apiSettings (Unparseable ''Unexpected end of JSON input'') =
     Inl (SyntaxError ''Unexpected end of JSON input'') \<and>
   settings_effect (Unparseable ''Unexpected end of JSON input'') form_init =
     Inl (SyntaxError ''Unexpected end of JSON input'') \<and>
   handleSend (answering (Inr \<lparr>answer = ''ok'', r_citations = [], r_chunks = []\<rparr>))
     None None (Unparseable ''Unexpected end of JSON input'') 1 2
     \<lparr>messages = [], input = ''hi'', loading = False\<rparr> =
   (\<lparr>messages =
        [\<lparr>sender = User, msg_text = ''hi'', citations = None, chunks = None, timestamp = 1\<rparr>,
         \<lparr>sender = Assistant, msg_text = ''Error: Unexpected end of JSON input'',
          citations = None, chunks = None, timestamp = 2\<rparr>],
      input = [], loading = False\<rparr>, [])"
  by (simp add: read_apiSettings_def settings_effect_def handleSend_def handleSend_begin_def
      handleSend_settle_def userMsg_def errorMsg_def SyntaxError_def truthy_def or_empty_def
      trim_def is_js_space_def)

lemma errorMsg_SyntaxError:
  "errorMsg (SyntaxError m) = (if m = [] then ''Unknown error'' else m)"
  by (simp add: errorMsg_def SyntaxError_def truthy_def or_empty_def)

text \<open>
  C8, amended. A read of an absent record never fails and gives no overrides: the body of
  a submit has the four basic keys only, and the settings form is left as it is. A read of
  a corrupt record raises the SyntaxError of \<open>JSON.parse\<close>: the effect of the settings form
  fails with it, and an accepted submit takes the \<open>catch\<close> path of \<open>handleSend\<close>, which
  appends the user message and an assistant message with the error text, clears
  \<open>loading\<close> and posts nothing.
\<close>

theorem settings_read_absent_or_corrupt:
  "read_apiSettings NoItem = Inr None \<and>
   dom (query_payload q d c None) = {''question'', ''doc_id'', ''conversation_id'', ''stream''} \<and>
   settings_effect NoItem f = Inr f \<and>
   read_apiSettings (Unparseable m) = Inl (SyntaxError m) \<and>
   settings_effect (Unparseable m) f = Inl (SyntaxError m) \<and>
   (\<not> loading s \<and> \<not> whitespace_only (input s) \<longrightarrow>
      snd (handleSend post doc cid NoItem now now' s) =
        [query_payload (input s) (map_option doc_id doc) cid None] \<and>
      handleSend post doc cid (Unparseable m) now now' s =
        (s\<lparr>messages := messages s @
              [userMsg s now,
               \<lparr>sender = Assistant,
                msg_text = ''Error: '' @ (if m = [] then ''Unknown error'' else m),
                citations = None, chunks = None, timestamp = now'\<rparr>],
            input := [], loading := False\<rparr>, []))"
proof -
  have d: "dom (query_payload q d c None) =
      {''question'', ''doc_id'', ''conversation_id'', ''stream''}"
    by (simp only: query_payload_def Let_def option.case dom_fun_upd dom_empty option.simps
        if_False) blast
  have r: "read_apiSettings NoItem = Inr None"
    "read_apiSettings (Unparseable m) = Inl (SyntaxError m)"
    by (simp_all add: read_apiSettings_def)
  have e: "settings_effect NoItem f = Inr f"
    "settings_effect (Unparseable m) f = Inl (SyntaxError m)"
    by (simp_all add: settings_effect_def)
  have h: "snd (handleSend post doc cid NoItem now now' s) =
        [query_payload (input s) (map_option doc_id doc) cid None] \<and>
      handleSend post doc cid (Unparseable m) now now' s =
        (s\<lparr>messages := messages s @
              [userMsg s now,
               \<lparr>sender = Assistant,
                msg_text = ''Error: '' @ (if m = [] then ''Unknown error'' else m),
                citations = None, chunks = None, timestamp = now'\<rparr>],
            input := [], loading := False\<rparr>, [])"
    if a: "\<not> loading s" "\<not> whitespace_only (input s)"
  proof -
    from a have g: "\<not> (trim (input s) = [] \<or> loading s)"
      by (simp add: trim_empty_iff)
    have "snd (handleSend post doc cid NoItem now now' s) =
        [query_payload (input s) (map_option doc_id doc) cid None]"
      using a r(1) by (rule handleSend_posts)
    moreover have "handleSend post doc cid (Unparseable m) now now' s =
        (s\<lparr>messages := messages s @
              [userMsg s now,
               \<lparr>sender = Assistant,
                msg_text = ''Error: '' @ (if m = [] then ''Unknown error'' else m),
                citations = None, chunks = None, timestamp = now'\<rparr>],
            input := [], loading := False\<rparr>, [])"
      using g by (simp add: handleSend_def handleSend_begin_def r(2) handleSend_settle_def
          errorMsg_SyntaxError Let_def)
    ultimately show ?thesis by simp
  qed
  from d r e h show ?thesis by blast
qed

theorem settings_read_absent_or_corrupt_witness:
  "\<not> loading \<lparr>messages = [], input = ''hi'', loading = False\<rparr> \<and>
   \<not> whitespace_only (input \<lparr>messages = [], input = ''hi'', loading = False\<rparr>) \<and>
   snd (handleSend (answering (Inr \<lparr>answer = ''ok'', r_citations = [], r_chunks = []\<rparr>))
          None None (Unparseable ''bad'') 1 2
          \<lparr>messages = [], input = ''hi'', loading = False\<rparr>) = []"
proof -
  let ?s = "\<lparr>messages = [], input = ''hi'', loading = False\<rparr>"
  have h: "\<not> loading ?s \<and> \<not> whitespace_only (input ?s)"
    by (simp add: whitespace_only_def is_js_space_def)
  from settings_read_absent_or_corrupt
    [of _ _ _ _ "''bad''" "?s"
      "answering (Inr \<lparr>answer = ''ok'', r_citations = [], r_chunks = []\<rparr>)" None None 1 2]
    h
  have "handleSend (answering (Inr \<lparr>answer = ''ok'', r_citations = [], r_chunks = []\<rparr>))
          None None (Unparseable ''bad'') 1 2 ?s =
        (?s\<lparr>messages := messages ?s @
              [userMsg ?s 1,
               \<lparr>sender = Assistant,
                msg_text = ''Error: '' @ (if ''bad'' = [] then ''Unknown error'' else ''bad''),
                citations = None, chunks = None, timestamp = 2\<rparr>],
            input := [], loading := False\<rparr>, [])"
    by blast
  then show ?thesis using h by simp
qed

section \<open>Saving the settings\<close>

lemma trim_trimmed_of: "trimmed_of (trim s) s"
proof -
  let ?P = is_js_space
  let ?d = "dropWhile ?P s"
  let ?a = "takeWhile ?P s"
  let ?b = "rev (takeWhile ?P (rev ?d))"
  have t: "trim s = rev (dropWhile ?P (rev ?d))" by (simp add: trim_def)
  have "?d = rev (rev ?d)" by simp
  also have "\<dots> = rev (takeWhile ?P (rev ?d) @ dropWhile ?P (rev ?d))"
    by (simp only: takeWhile_dropWhile_id)
  also have "\<dots> = trim s @ ?b" by (simp only: rev_append t)
  finally have d: "?d = trim s @ ?b" .
  have "s = ?a @ ?d" by simp
  with d have split: "s = ?a @ trim s @ ?b" by simp
  have wa: "whitespace_only ?a"
    by (auto simp: whitespace_only_def list_all_iff dest: set_takeWhileD)
  have wb: "whitespace_only ?b"
    by (auto simp: whitespace_only_def list_all_iff dest: set_takeWhileD)
  have ends: "\<not> ?P (hd (trim s)) \<and> \<not> ?P (last (trim s))" if ne: "trim s \<noteq> []"
  proof -
    have dne: "?d \<noteq> []"
    proof
      assume z: "?d = []"
      have "trim s = []" unfolding trim_def z by simp
      with ne show False ..
    qed
    then have "\<not> ?P (hd ?d)" by (rule hd_dropWhile)
    moreover have "hd ?d = hd (trim s)"
    proof -
      from d have "hd ?d = hd (trim s @ ?b)" by (rule arg_cong)
      also from ne have "\<dots> = hd (trim s)" by (rule hd_append2)
      finally show ?thesis .
    qed
    moreover from ne t have "dropWhile ?P (rev ?d) \<noteq> []" by simp
    then have "\<not> ?P (hd (dropWhile ?P (rev ?d)))" by (rule hd_dropWhile)
    moreover from ne t have "last (trim s) = hd (dropWhile ?P (rev ?d))"
      by (simp add: last_rev)
    ultimately show ?thesis by simp
  qed
  show ?thesis
    unfolding trimmed_of_def
  proof
    from split wa wb show "\<exists>a b. s = a @ trim s @ b \<and> whitespace_only a \<and> whitespace_only b"
      by blast
  next
    show "case trim s of [] \<Rightarrow> True | c # x \<Rightarrow> \<not> ?P c \<and> \<not> ?P (last (trim s))"
      using ends by (cases "trim s") auto
  qed
qed

text \<open>
  C9. \<open>handleSave\<close> trims the three fields. When all three are empty or blank the item is
  removed; otherwise the item stored afterwards is the record of the three trimmed fields,
  whatever was stored before.
\<close>

theorem handleSave_store:
  "fst (handleSave f old) =
     (if whitespace_only (form_apiBaseUrl f) \<and> whitespace_only (form_apiKey f) \<and>
         whitespace_only (form_model f)
      then NoItem
      else Parsed \<lparr>apiBaseUrl = Some (trim (form_apiBaseUrl f)),
                   apiKey = Some (trim (form_apiKey f)),
                   model = Some (trim (form_model f))\<rparr>) \<and>
   trimmed_of (trim (form_apiBaseUrl f)) (form_apiBaseUrl f) \<and>
   trimmed_of (trim (form_apiKey f)) (form_apiKey f) \<and>
   trimmed_of (trim (form_model f)) (form_model f)"
  by (simp add: handleSave_def Let_def truthy_def trim_empty_iff trim_trimmed_of)

theorem handleSave_store_witness:
  "fst (handleSave \<lparr>form_apiBaseUrl = ''  '', form_apiKey = '' k '', form_model = [],
                    form_saved = False\<rparr>
          (Parsed \<lparr>apiBaseUrl = Some ''http://old'', apiKey = Some ''old'', model = Some ''m''\<rparr>))
     = Parsed \<lparr>apiBaseUrl = Some [], apiKey = Some ''k'', model = Some []\<rparr> \<and>
   fst (handleSave \<lparr>form_apiBaseUrl = ''  '', form_apiKey = '' '', form_model = [],
                    form_saved = False\<rparr>
          (Parsed \<lparr>apiBaseUrl = Some ''http://old'', apiKey = Some ''old'', model = Some ''m''\<rparr>))
     = NoItem"
  using handleSave_store [of "\<lparr>form_apiBaseUrl = ''  '', form_apiKey = '' k '', form_model = [],
                    form_saved = False\<rparr>"
          "Parsed \<lparr>apiBaseUrl = Some ''http://old'', apiKey = Some ''old'', model = Some ''m''\<rparr>"]
    handleSave_store [of "\<lparr>form_apiBaseUrl = ''  '', form_apiKey = '' '', form_model = [],
                    form_saved = False\<rparr>"
          "Parsed \<lparr>apiBaseUrl = Some ''http://old'', apiKey = Some ''old'', model = Some ''m''\<rparr>"]
  by (simp add: whitespace_only_def is_js_space_def trim_def)



section \<open>Deleting a document\<close>

text \<open>
  C5. When the backend rejects the deletion, \<open>handleDelete\<close> leaves the listing \<open>docs\<close>, the
  selection of the list (\<open>selectedId\<close>) and the selection of \<open>App\<close> (\<open>selectedDoc\<close>) as they
  were, and the failure is not swallowed: the operator who asked for the deletion is told
  with \<open>alert('Failed to delete document')\<close>.
\<close>

theorem handleDelete_failure:
  "deleteDocument docId = Inl err \<Longrightarrow>
   fst (handleDelete deleteDocument confirmed docId s a) = (s, a) \<and>
   handleDelete deleteDocument True docId s a =
     ((s, a), [''Failed to delete document''], [docId])"
  by (simp add: handleDelete_def)

theorem handleDelete_failure_witness:
  "answering (Inl \<lparr>response_detail = Some ''locked'', message = Some ''Request failed''\<rparr>) (7::nat)
     = (Inl \<lparr>response_detail = Some ''locked'', message = Some ''Request failed''\<rparr>
          :: js_error + unit) \<and>
   handleDelete
     (answering (Inl \<lparr>response_detail = Some ''locked'', message = Some ''Request failed''\<rparr>))
     True 7
     \<lparr>docs = [sample_doc 7, sample_doc 8], list_loading = False, selectedId = Some 7\<rparr>
     \<lparr>activeTab = TabDocuments, selectedDoc = Some (sample_doc 7), chat = Some chat_init\<rparr> =
   ((\<lparr>docs = [sample_doc 7, sample_doc 8], list_loading = False, selectedId = Some 7\<rparr>,
     \<lparr>activeTab = TabDocuments, selectedDoc = Some (sample_doc 7), chat = Some chat_init\<rparr>),
    [''Failed to delete document''], [7])"
proof -
  have h: "answering (Inl \<lparr>response_detail = Some ''locked'', message = Some ''Request failed''\<rparr>) (7::nat)
     = (Inl \<lparr>response_detail = Some ''locked'', message = Some ''Request failed''\<rparr>
          :: js_error + unit)"
    by (simp add: answering_def)
  from handleDelete_failure
    [of "answering (Inl \<lparr>response_detail = Some ''locked'', message = Some ''Request failed''\<rparr>)"
      7 "\<lparr>response_detail = Some ''locked'', message = Some ''Request failed''\<rparr>" True] h
  show ?thesis by blast
qed


section \<open>Listing documents\<close>

text \<open>
  C10. Every \<open>loadDocs\<close> sends one request, with \<open>skip = 0\<close> and \<open>limit = 100\<close>; against a
  backend that pages as the interface describes, the listing is then the first hundred
  documents the backend holds, so at most a hundred are shown.
\<close>

theorem loadDocs_first_hundred:
  "snd (loadDocs get s) = [(0, 100)] \<and>
   docs (fst (loadDocs (backend_documents held) s)) = take 100 held \<and>
   length (docs (fst (loadDocs (backend_documents held) s))) \<le> 100"
  by (simp add: loadDocs_def getDocuments_def backend_documents_def Let_def)


section \<open>The chat view and the selected document\<close>

text \<open>
  C7 as stated does not hold. Document 1 is selected, a question is asked and answered
  (the request carries \<open>doc_id = 1\<close>), and document 2 is selected from the documents tab:
  the chat view for document 2 shows the two messages of the exchange about document 1.
\<close>

theorem chat_messages_cross_documents_counterexample:
  "handleDocSelect (Some (sample_doc 2))
     (setActiveTab TabDocuments
        (fst (app_send (answering (Inr \<lparr>answer = ''A1'', r_citations = [3], r_chunks = []\<rparr>))
                NoItem 10 11
                (setInput ''q1'' (handleDocSelect (Some (sample_doc 1)) app_init))))) =
   \<lparr>activeTab = TabChat, selectedDoc = Some (sample_doc 2),
     chat = Some \<lparr>messages =
        [\<lparr>sender = User, msg_text = ''q1'', citations = None, chunks = None, timestamp = 10\<rparr>,
         \<lparr>sender = Assistant, msg_text = ''A1'', citations = Some [3], chunks = Some [],
          timestamp = 11\<rparr>],
        input = [], loading = False\<rparr>\<rparr> \<and>
   snd (app_send (answering (Inr \<lparr>answer = ''A1'', r_citations = [3], r_chunks = []\<rparr>))
          NoItem 10 11
          (setInput ''q1'' (handleDocSelect (Some (sample_doc 1)) app_init))) =
     [query_payload ''q1'' (Some 1) None None]"
  by (simp add: handleDocSelect_def setActiveTab_def app_send_def setInput_def app_init_def
      rerender_def chat_rendered_def chat_init_def handleSend_def handleSend_begin_def
      handleSend_settle_def userMsg_def read_apiSettings_def answering_def sample_doc_def
      trim_def is_js_space_def)

lemma query_payload_doc_id:
  "query_payload q d c st ''doc_id'' = Some (opt_num d)"
  by (cases st) (simp_all add: query_payload_def set_if_truthy_apply)

text \<open>
  C7, amended. The chat view has one conversation state for as long as it stays rendered,
  shared by all subjects. When another document is selected the subject changes with it
  (the next accepted submit posts that document's id as \<open>doc_id\<close>), while messages, input
  and pending flag are carried over unchanged; a chat view that was not rendered starts
  from the empty state.
\<close>

theorem chat_state_kept_on_selection:
  "selectedDoc (handleDocSelect (Some d) a) = Some d \<and>
   chat (handleDocSelect (Some d) a) =
     Some (case chat a of None \<Rightarrow> chat_init | Some c \<Rightarrow> c) \<and>
   (chat a = Some c \<and> \<not> loading c \<and> \<not> whitespace_only (input c) \<and>
    read_apiSettings saved = Inr st \<longrightarrow>
      snd (app_send post saved now now' (handleDocSelect (Some d) a)) =
        [query_payload (input c) (Some (doc_id d)) None st] \<and>
      query_payload (input c) (Some (doc_id d)) None st ''doc_id'' = Some (JNum (doc_id d)))"
proof -
  have sel: "selectedDoc (handleDocSelect (Some d) a) = Some d"
    by (simp add: handleDocSelect_def rerender_def)
  have ch: "chat (handleDocSelect (Some d) a) =
      Some (case chat a of None \<Rightarrow> chat_init | Some c \<Rightarrow> c)"
    by (simp add: handleDocSelect_def rerender_def chat_rendered_def split: option.split)
  have snd_: "snd (app_send post saved now now' (handleDocSelect (Some d) a)) =
        [query_payload (input c) (Some (doc_id d)) None st]"
    if a: "chat a = Some c" "\<not> loading c" "\<not> whitespace_only (input c)"
      "read_apiSettings saved = Inr st"
  proof -
    from a(1) ch have c: "chat (handleDocSelect (Some d) a) = Some c" by simp
    have "snd (handleSend post (Some d) None saved now now' c) =
        [query_payload (input c) (map_option doc_id (Some d)) None st]"
      using a(2,3,4) by (rule handleSend_posts)
    then show ?thesis
      by (simp add: app_send_def c sel split_beta)
  qed
  have "query_payload (input c) (Some (doc_id d)) None st ''doc_id'' = Some (JNum (doc_id d))"
    by (simp add: query_payload_doc_id opt_num_def)
  with sel ch snd_ show ?thesis by blast
qed


theorem chat_state_kept_on_selection_witness:
  "chat \<lparr>activeTab = TabDocuments, selectedDoc = Some (sample_doc 1),
         chat = Some \<lparr>messages = [], input = ''q2'', loading = False\<rparr>\<rparr> =
     Some \<lparr>messages = [], input = ''q2'', loading = False\<rparr> \<and>
   \<not> loading \<lparr>messages = [], input = ''q2'', loading = False\<rparr> \<and>
   \<not> whitespace_only (input \<lparr>messages = [], input = ''q2'', loading = False\<rparr>) \<and>
   read_apiSettings NoItem = Inr None \<and>
   snd (app_send (answering (Inl (SyntaxError ''down''))) NoItem 1 2
          (handleDocSelect (Some (sample_doc 2))
             \<lparr>activeTab = TabDocuments, selectedDoc = Some (sample_doc 1),
               chat = Some \<lparr>messages = [], input = ''q2'', loading = False\<rparr>\<rparr>)) =
     [query_payload ''q2'' (Some 2) None None]"
proof -
  let ?c = "\<lparr>messages = [], input = ''q2'', loading = False\<rparr>"
  let ?a = "\<lparr>activeTab = TabDocuments, selectedDoc = Some (sample_doc 1), chat = Some ?c\<rparr>"
  have h: "chat ?a = Some ?c \<and> \<not> loading ?c \<and> \<not> whitespace_only (input ?c) \<and>
      read_apiSettings NoItem = Inr None"
    by (simp add: whitespace_only_def is_js_space_def read_apiSettings_def)
  from chat_state_kept_on_selection
    [of "sample_doc 2" "?a" "?c" NoItem None "answering (Inl (SyntaxError ''down''))" 1 2] h
  have "snd (app_send (answering (Inl (SyntaxError ''down''))) NoItem 1 2
          (handleDocSelect (Some (sample_doc 2)) ?a)) =
        [query_payload (input ?c) (Some (doc_id (sample_doc 2))) None None]"
    by blast
  then show ?thesis using h by (simp add: sample_doc_def)
qed


section \<open>Uploading a batch of files\<close>

lemma length_map_at: "length (map_at i f xs) = length xs"
  by (simp add: map_at_def)

lemma nth_map_at:
  "j < length xs \<Longrightarrow> map_at i f xs ! j = (if j = i then f (xs ! j) else xs ! j)"
  by (simp add: map_at_def nth_enumerate_eq)

lemma map_at_eq: "map_at i f xs = (if i < length xs then xs[i := f (xs ! i)] else xs)"
  by (rule nth_equalityI) (auto simp: length_map_at nth_map_at nth_list_update)

lemma settle_task_fun:
  "(\<lambda>p. p\<lparr>status := Error, task_error := message e\<rparr>) = settle_task (Inl e)"
  "(\<lambda>p. p\<lparr>status := Success, task_id := Some (doc_id d)\<rparr>) = settle_task (Inr d)"
  by (rule ext, simp add: settle_task_def)+

lemma step_calls:
  "calls (onDrop_step u files i w) = calls w @ [(files ! i, progress w)]"
  by (simp add: onDrop_step_def split_beta Let_def split: sum.split)

lemma step_progress:
  "progress (onDrop_step u files i w) =
     map_at i (settle_task (fst (u (backend w) (files ! i)))) (progress w)"
  by (simp add: onDrop_step_def split_beta Let_def settle_task_fun split: sum.split)

lemma step_backend:
  "backend (onDrop_step u files i w) = snd (u (backend w) (files ! i))"
  by (simp add: onDrop_step_def split_beta Let_def split: sum.split)

lemma step_uploading:
  "uploading (onDrop_step u files i w) = uploading w"
  by (simp add: onDrop_step_def split_beta Let_def split: sum.split)

lemma step_reported:
  "reported (onDrop_step u files i w) =
     reported w @ successes [fst (u (backend w) (files ! i))]"
  by (simp add: onDrop_step_def split_beta Let_def successes_def
      split: sum.split)

lemma step_refreshTrigger:
  "refreshTrigger (onDrop_step u files i w) =
     refreshTrigger w + length (successes [fst (u (backend w) (files ! i))])"
  by (simp add: onDrop_step_def split_beta Let_def successes_def
      split: sum.split)

lemma terminal_settle_task: "terminal (status (settle_task r p))"
  by (cases r) (simp_all add: settle_task_def terminal_def)

lemma settle_new_task: "settle_task r (new_task f) = task_for f r"
  by (cases r) (simp_all add: settle_task_def new_task_def task_for_def)

lemma step_settled:
  assumes "i < length (progress w)" and "settled_before i (progress w)"
  shows "settled_before (Suc i) (progress (onDrop_step u files i w))"
proof -
  let ?v = "settle_task (fst (u (backend w) (files ! i))) (progress w ! i)"
  from assms(1) have "progress (onDrop_step u files i w) = (progress w)[i := ?v]"
    by (simp add: step_progress map_at_eq)
  moreover from assms(1) have "take (Suc i) ((progress w)[i := ?v]) = take i (progress w) @ [?v]"
    by (simp add: take_Suc_conv_app_nth)
  ultimately show ?thesis
    using assms(2) by (simp add: settled_before_def terminal_settle_task)
qed

lemma loop_calls:
  assumes "length (progress w) = length files" and "settled_before i (progress w)"
  shows "\<exists>new. calls (onDrop_loop u files i w) = calls w @ new \<and>
               map fst new = drop i files \<and>
               (\<forall>k<length new. settled_before (i + k) (snd (new ! k)) \<and>
                                 length (snd (new ! k)) = length files)"
  using assms
proof (induction u files i w rule: onDrop_loop.induct)
  case (1 u files i w)
  show ?case
  proof (cases "i < length files")
    case False
    then show ?thesis by simp
  next
    case True
    let ?w1 = "onDrop_step u files i w"
    have len1: "length (progress ?w1) = length files"
      using "1.prems"(1) by (simp add: step_progress length_map_at)
    have set1: "settled_before (Suc i) (progress ?w1)"
      using True "1.prems" by (simp add: step_settled)
    from "1.IH" [OF True len1 set1]
    obtain new' where n: "calls (onDrop_loop u files (Suc i) ?w1) = calls ?w1 @ new'"
      "map fst new' = drop (Suc i) files"
      "\<forall>k<length new'. settled_before (Suc i + k) (snd (new' ! k)) \<and>
                          length (snd (new' ! k)) = length files"
      by blast
    let ?new = "(files ! i, progress w) # new'"
    have a: "calls (onDrop_loop u files i w) = calls w @ ?new"
      using True n(1) by (simp add: step_calls)
    have b: "map fst ?new = drop i files"
      using True n(2) by (simp add: Cons_nth_drop_Suc)
    have c: "settled_before (i + k) (snd (?new ! k)) \<and> length (snd (?new ! k)) = length files"
      if "k < length ?new" for k
    proof (cases k)
      case 0
      then show ?thesis using "1.prems" by simp
    next
      case (Suc k')
      with that n(3) show ?thesis by simp
    qed
    from a b c show ?thesis by blast
  qed
qed


lemma length_outcomes: "length (outcomes u b fs) = length fs"
  by (induction fs arbitrary: b) simp_all

lemma successes_Cons:
  "successes (r # rs) = successes [r] @ successes rs"
  by (cases r) (simp_all add: successes_def)

lemma successes_failures: "length (successes rs) + failures rs = length rs"
  by (induction rs) (auto simp: successes_def failures_def split: sum.split)

lemma outcomes_drop:
  "i < length files \<Longrightarrow>
   outcomes u b (drop i files) =
     fst (u b (files ! i)) # outcomes u (snd (u b (files ! i))) (drop (Suc i) files)"
  by (simp flip: Cons_nth_drop_Suc)

lemma loop_result:
  assumes "length (progress w) = length files"
    and "\<forall>j. i \<le> j \<and> j < length files \<longrightarrow> progress w ! j = new_task (files ! j)"
  shows "progress (onDrop_loop u files i w) =
           take i (progress w) @
           map2 task_for (drop i files) (outcomes u (backend w) (drop i files)) \<and>
         reported (onDrop_loop u files i w) =
           reported w @ successes (outcomes u (backend w) (drop i files)) \<and>
         refreshTrigger (onDrop_loop u files i w) =
           refreshTrigger w + length (successes (outcomes u (backend w) (drop i files))) \<and>
         uploading (onDrop_loop u files i w) = uploading w"
  using assms
proof (induction u files i w rule: onDrop_loop.induct)
  case (1 u files i w)
  show ?case
  proof (cases "i < length files")
    case False
    with "1.prems"(1) show ?thesis by (simp add: successes_def)
  next
    case True
    let ?r = "fst (u (backend w) (files ! i))"
    let ?w1 = "onDrop_step u files i w"
    let ?rs = "outcomes u (backend ?w1) (drop (Suc i) files)"
    from True "1.prems"(1) have ip: "i < length (progress w)" by simp
    from True "1.prems"(2) have "progress w ! i = new_task (files ! i)" by simp
    with ip have p1: "progress ?w1 = (progress w)[i := task_for (files ! i) ?r]"
      by (simp add: step_progress map_at_eq settle_new_task)
    then have len1: "length (progress ?w1) = length files"
      using "1.prems"(1) by simp
    have rest1: "\<forall>j. Suc i \<le> j \<and> j < length files \<longrightarrow>
        progress ?w1 ! j = new_task (files ! j)"
      using "1.prems"(2) by (simp add: p1)
    have tk: "take (Suc i) (progress ?w1) = take i (progress w) @ [task_for (files ! i) ?r]"
      using ip by (simp add: p1 take_Suc_conv_app_nth)
    have oc: "outcomes u (backend w) (drop i files) = ?r # ?rs"
      using True by (simp add: outcomes_drop step_backend)
    have dr: "drop i files = files ! i # drop (Suc i) files"
      using True by (simp add: Cons_nth_drop_Suc)
    from "1.IH" [OF True len1 rest1]
    have ih: "progress (onDrop_loop u files (Suc i) ?w1) =
          take (Suc i) (progress ?w1) @ map2 task_for (drop (Suc i) files) ?rs"
      "reported (onDrop_loop u files (Suc i) ?w1) = reported ?w1 @ successes ?rs"
      "refreshTrigger (onDrop_loop u files (Suc i) ?w1) =
          refreshTrigger ?w1 + length (successes ?rs)"
      "uploading (onDrop_loop u files (Suc i) ?w1) = uploading ?w1"
      by blast+
    have l: "onDrop_loop u files i w = onDrop_loop u files (Suc i) ?w1"
      using True by simp
    have "progress (onDrop_loop u files i w) =
          take i (progress w) @ map2 task_for (drop i files) (outcomes u (backend w) (drop i files))"
      unfolding l ih(1) tk oc by (subst dr) simp
    moreover have "reported (onDrop_loop u files i w) =
          reported w @ successes (outcomes u (backend w) (drop i files))"
      unfolding l ih(2) oc by (subst successes_Cons) (simp add: step_reported)
    moreover have "refreshTrigger (onDrop_loop u files i w) =
          refreshTrigger w + length (successes (outcomes u (backend w) (drop i files)))"
      unfolding l ih(3) oc by (subst successes_Cons) (simp add: step_refreshTrigger)
    moreover have "uploading (onDrop_loop u files i w) = uploading w"
      unfolding l ih(4) by (simp add: step_uploading)
    ultimately show ?thesis by blast
  qed
qed


lemma onDrop_calls:
  "\<exists>new. calls (onDrop u files w) = calls w @ new \<and> map fst new = files \<and>
     (\<forall>k<length new. settled_before k (snd (new ! k)) \<and>
                       length (snd (new ! k)) = length files)"
proof -
  let ?w0 = "w\<lparr>uploading := True, progress := map new_task files\<rparr>"
  have "length (progress ?w0) = length files" by simp
  moreover have "settled_before 0 (progress ?w0)" by (simp add: settled_before_def)
  ultimately have "\<exists>new. calls (onDrop_loop u files 0 ?w0) = calls ?w0 @ new \<and>
      map fst new = drop 0 files \<and>
      (\<forall>k<length new. settled_before (0 + k) (snd (new ! k)) \<and>
                        length (snd (new ! k)) = length files)"
    by (rule loop_calls)
  then show ?thesis by (simp add: onDrop_def)
qed

lemma onDrop_example_run:
  "calls (onDrop sample_uploadDocument
        [\<lparr>file_name = ''a.pdf'', file_body = ''%PDF''\<rparr>,
         \<lparr>file_name = ''b.pdf'', file_body = []\<rparr>]
        \<lparr>backend = 0, uploading = False, progress = [], calls = [], reported = [],
          refreshTrigger = 0\<rparr>) =
   [(\<lparr>file_name = ''a.pdf'', file_body = ''%PDF''\<rparr>,
     [\<lparr>name = ''a.pdf'', status = Uploading, task_id = None, task_error = None\<rparr>,
      \<lparr>name = ''b.pdf'', status = Uploading, task_id = None, task_error = None\<rparr>]),
    (\<lparr>file_name = ''b.pdf'', file_body = []\<rparr>,
     [\<lparr>name = ''a.pdf'', status = Success, task_id = Some 0, task_error = None\<rparr>,
      \<lparr>name = ''b.pdf'', status = Uploading, task_id = None, task_error = None\<rparr>])]"
  by (simp add: onDrop_def onDrop_step_def sample_uploadDocument_def new_task_def map_at_def
      enumerate_eq_zip upt_rec Let_def)

lemma rest_new_tasks:
  assumes "length (progress w) = length files"
    and "\<forall>j. i \<le> j \<and> j < length files \<longrightarrow> progress w ! j = new_task (files ! j)"
  shows "progress w = take i (progress w) @ map new_task (drop i files)"
proof -
  have "drop i (progress w) = map new_task (drop i files)"
    using assms by (intro nth_equalityI) simp_all
  then have "take i (progress w) @ drop i (progress w) =
      take i (progress w) @ map new_task (drop i files)"
    by (rule arg_cong)
  then show ?thesis by (simp only: append_take_drop_id)
qed

lemma loop_calls_exact:
  assumes "length (progress w) = length files"
    and "\<forall>j. i \<le> j \<and> j < length files \<longrightarrow> progress w ! j = new_task (files ! j)"
  shows "\<exists>new. calls (onDrop_loop u files i w) = calls w @ new \<and>
           length new = length files - i \<and>
           (\<forall>k<length new. snd (new ! k) =
              take i (progress w) @
              map2 task_for (take k (drop i files))
                (take k (outcomes u (backend w) (drop i files))) @
              map new_task (drop (i + k) files))"
  using assms
proof (induction u files i w rule: onDrop_loop.induct)
  case (1 u files i w)
  show ?case
  proof (cases "i < length files")
    case False
    then show ?thesis by simp
  next
    case True
    let ?r = "fst (u (backend w) (files ! i))"
    let ?w1 = "onDrop_step u files i w"
    let ?rs = "outcomes u (backend ?w1) (drop (Suc i) files)"
    from True "1.prems"(1) have ip: "i < length (progress w)" by simp
    from True "1.prems"(2) have "progress w ! i = new_task (files ! i)" by simp
    with ip have p1: "progress ?w1 = (progress w)[i := task_for (files ! i) ?r]"
      by (simp add: step_progress map_at_eq settle_new_task)
    then have len1: "length (progress ?w1) = length files"
      using "1.prems"(1) by simp
    have rest1: "\<forall>j. Suc i \<le> j \<and> j < length files \<longrightarrow>
        progress ?w1 ! j = new_task (files ! j)"
      using "1.prems"(2) by (simp add: p1)
    have tk: "take (Suc i) (progress ?w1) = take i (progress w) @ [task_for (files ! i) ?r]"
      using ip by (simp add: p1 take_Suc_conv_app_nth)
    have oc: "outcomes u (backend w) (drop i files) = ?r # ?rs"
      using True by (simp add: outcomes_drop step_backend)
    have dr: "drop i files = files ! i # drop (Suc i) files"
      using True by (simp add: Cons_nth_drop_Suc)
    from "1.IH" [OF True len1 rest1]
    obtain new' where n: "calls (onDrop_loop u files (Suc i) ?w1) = calls ?w1 @ new'"
      "length new' = length files - Suc i"
      "\<forall>k<length new'. snd (new' ! k) =
          take (Suc i) (progress ?w1) @
          map2 task_for (take k (drop (Suc i) files)) (take k ?rs) @
          map new_task (drop (Suc i + k) files)"
      by blast
    let ?new = "(files ! i, progress w) # new'"
    have a: "calls (onDrop_loop u files i w) = calls w @ ?new"
      using True n(1) by (simp add: step_calls)
    have b: "length ?new = length files - i"
      using True n(2) by simp
    have c: "snd (?new ! k) =
        take i (progress w) @
        map2 task_for (take k (drop i files)) (take k (outcomes u (backend w) (drop i files))) @
        map new_task (drop (i + k) files)"
      if "k < length ?new" for k
    proof (cases k)
      case 0
      then show ?thesis
        using rest_new_tasks [OF "1.prems"] by simp
    next
      case (Suc k')
      with that have "k' < length new'" by simp
      with n(3) have "snd (new' ! k') =
          take (Suc i) (progress ?w1) @
          map2 task_for (take k' (drop (Suc i) files)) (take k' ?rs) @
          map new_task (drop (Suc i + k') files)"
        by blast
      then show ?thesis
        unfolding Suc tk oc by (subst dr) simp
    qed
    from a b c show ?thesis by blast
  qed
qed

lemma settled_snapshot:
  assumes "k \<le> length fs" and "length rs = length fs"
  shows "settled_before k (map2 task_for (take k fs) (take k rs) @ map new_task (drop k fs))"
proof -
  from assms have l: "length (map2 task_for (take k fs) (take k rs)) = k" by simp
  have "list_all (\<lambda>t. terminal (status t)) (map2 task_for (take k fs) (take k rs))"
    by (auto simp: list_all_iff task_for_def terminal_def split: sum.split)
  with l show ?thesis by (simp add: settled_before_def)
qed

lemma onDrop_calls_exact:
  "\<exists>new. calls (onDrop u files w) = calls w @ new \<and> length new = length files \<and>
     (\<forall>k<length new. snd (new ! k) =
        map2 task_for (take k files) (take k (outcomes u (backend w) files)) @
        map new_task (drop k files))"
proof -
  let ?w0 = "w\<lparr>uploading := True, progress := map new_task files\<rparr>"
  have "length (progress ?w0) = length files" by simp
  moreover have "\<forall>j. 0 \<le> j \<and> j < length files \<longrightarrow> progress ?w0 ! j = new_task (files ! j)"
    by simp
  ultimately have "\<exists>new. calls (onDrop_loop u files 0 ?w0) = calls ?w0 @ new \<and>
           length new = length files - 0 \<and>
           (\<forall>k<length new. snd (new ! k) =
              take 0 (progress ?w0) @
              map2 task_for (take k (drop 0 files))
                (take k (outcomes u (backend ?w0) (drop 0 files))) @
              map new_task (drop (0 + k) files))"
    by (rule loop_calls_exact)
  then show ?thesis by (simp add: onDrop_def)
qed

text \<open>
  C3. The files of a batch are uploaded one after the other in input order: the calls of
  \<open>uploadDocument\<close> made by \<open>onDrop\<close> are for the files of the batch, in that order, and at
  the moment the call for the file at position \<open>k\<close> is made, the task of every file before
  it carries the outcome of that file's upload, and so has a terminal status (success or
  error), while the tasks from position \<open>k\<close> on are still as they were created.
\<close>

theorem onDrop_sequential:
  "\<exists>new. calls (onDrop uploadDocument files w) = calls w @ new \<and> map fst new = files \<and>
     (\<forall>k<length new.
        snd (new ! k) =
          map2 task_for (take k files) (take k (outcomes uploadDocument (backend w) files)) @
          map new_task (drop k files) \<and>
        settled_before k (snd (new ! k)) \<and>
        length (snd (new ! k)) = length files)"
proof -
  obtain new where n: "calls (onDrop uploadDocument files w) = calls w @ new"
    "map fst new = files"
    using onDrop_calls [of uploadDocument files w] by blast
  obtain new' where n': "calls (onDrop uploadDocument files w) = calls w @ new'"
    "length new' = length files"
    "\<forall>k<length new'. snd (new' ! k) =
        map2 task_for (take k files) (take k (outcomes uploadDocument (backend w) files)) @
        map new_task (drop k files)"
    using onDrop_calls_exact [of uploadDocument files w] by blast
  from n(1) n'(1) have eq: "new' = new" by simp
  have lr: "length (outcomes uploadDocument (backend w) files) = length files"
    by (rule length_outcomes)
  have "snd (new ! k) =
          map2 task_for (take k files) (take k (outcomes uploadDocument (backend w) files)) @
          map new_task (drop k files) \<and>
        settled_before k (snd (new ! k)) \<and>
        length (snd (new ! k)) = length files" if "k < length new" for k
  proof -
    from that n'(2) eq have kl: "k \<le> length files" by simp
    from that n'(3) eq have s: "snd (new ! k) =
          map2 task_for (take k files) (take k (outcomes uploadDocument (backend w) files)) @
          map new_task (drop k files)" by blast
    have "settled_before k (snd (new ! k))"
      unfolding s using kl lr by (rule settled_snapshot)
    moreover have "length (snd (new ! k)) = length files"
      unfolding s using kl lr by simp
    ultimately show ?thesis using s by blast
  qed
  with n show ?thesis by blast
qed

theorem onDrop_sequential_witness:
  "1 < length (calls (onDrop sample_uploadDocument
        [\<lparr>file_name = ''a.pdf'', file_body = []\<rparr>,
         \<lparr>file_name = ''b.pdf'', file_body = ''%PDF''\<rparr>]
        \<lparr>backend = 0, uploading = False, progress = [], calls = [], reported = [],
          refreshTrigger = 0\<rparr>)) \<and>
   snd (calls (onDrop sample_uploadDocument
        [\<lparr>file_name = ''a.pdf'', file_body = []\<rparr>,
         \<lparr>file_name = ''b.pdf'', file_body = ''%PDF''\<rparr>]
        \<lparr>backend = 0, uploading = False, progress = [], calls = [], reported = [],
          refreshTrigger = 0\<rparr>) ! 1) =
     [\<lparr>name = ''a.pdf'', status = Error, task_id = None,
       task_error = Some ''Request failed with status code 413''\<rparr>,
      \<lparr>name = ''b.pdf'', status = Uploading, task_id = None, task_error = None\<rparr>]"
proof -
  define files where "files = [\<lparr>file_name = ''a.pdf'', file_body = []\<rparr>,
         \<lparr>file_name = ''b.pdf'', file_body = ''%PDF''\<rparr>]"
  define w where "w = \<lparr>backend = 0::nat, uploading = False, progress = [], calls = [],
          reported = [], refreshTrigger = 0\<rparr>"
  define cs where "cs = calls (onDrop sample_uploadDocument files w)"
  define snap where "snap =
     map2 task_for (take 1 files) (take 1 (outcomes sample_uploadDocument (backend w) files)) @
     map new_task (drop 1 files)"
  have lf: "length files = 2" and cw: "calls w = []" by (simp_all add: files_def w_def)
  from onDrop_sequential [of sample_uploadDocument files w]
  obtain new where n: "cs = calls w @ new" "map fst new = files"
    "\<forall>k<length new. snd (new ! k) =
        map2 task_for (take k files) (take k (outcomes sample_uploadDocument (backend w) files)) @
        map new_task (drop k files) \<and>
      settled_before k (snd (new ! k)) \<and> length (snd (new ! k)) = length files"
    unfolding cs_def by blast
  from n(2) have "length (map fst new) = length files" by (rule arg_cong)
  with lf have l: "length new = 2" by simp
  with n(3) have "snd (new ! 1) = snap" unfolding snap_def by simp
  moreover from n(1) cw have "cs = new" by simp
  ultimately have r: "1 < length cs \<and> snd (cs ! 1) = snap" using l by simp
  have "snap = [\<lparr>name = ''a.pdf'', status = Error, task_id = None,
       task_error = Some ''Request failed with status code 413''\<rparr>,
      \<lparr>name = ''b.pdf'', status = Uploading, task_id = None, task_error = None\<rparr>]"
    by (simp add: snap_def files_def w_def sample_uploadDocument_def task_for_def new_task_def)
  with r show ?thesis unfolding cs_def files_def w_def by simp
qed

lemma map_status_task_for:
  "length fs = length rs \<Longrightarrow>
   map status (map2 task_for fs rs) = map (\<lambda>r. if isl r then Error else Success) rs"
  by (induction fs rs rule: list_induct2) (auto simp: task_for_def split: sum.split)

text \<open>
  C4. For a batch of \<open>N\<close> files, whatever the backend answers: when \<open>onDrop\<close> has finished,
  the task of each file carries the outcome of that file's single upload (error for a
  failure, success with the document id otherwise), so every task is terminal; every file
  has been tried exactly once, in order, whatever failed before it; and the successful
  uploads, \<open>N\<close> minus the number of failures of them, have been reported upward in upload
  order, each bumping the refresh counter once.
\<close>

theorem onDrop_batch_outcome:
  "progress (onDrop uploadDocument files w) =
     map2 task_for files (outcomes uploadDocument (backend w) files) \<and>
   map status (progress (onDrop uploadDocument files w)) =
     map (\<lambda>r. if isl r then Error else Success) (outcomes uploadDocument (backend w) files) \<and>
   list_all (\<lambda>t. terminal (status t)) (progress (onDrop uploadDocument files w)) \<and>
   length (progress (onDrop uploadDocument files w)) = length files \<and>
   map fst (drop (length (calls w)) (calls (onDrop uploadDocument files w))) = files \<and>
   reported (onDrop uploadDocument files w) =
     reported w @ successes (outcomes uploadDocument (backend w) files) \<and>
   length (successes (outcomes uploadDocument (backend w) files)) =
     length files - failures (outcomes uploadDocument (backend w) files) \<and>
   refreshTrigger (onDrop uploadDocument files w) =
     refreshTrigger w + (length files - failures (outcomes uploadDocument (backend w) files)) \<and>
   \<not> uploading (onDrop uploadDocument files w)"
proof -
  let ?u = uploadDocument
  let ?w0 = "w\<lparr>uploading := True, progress := map new_task files\<rparr>"
  let ?rs = "outcomes ?u (backend w) files"
  have lr: "length ?rs = length files" by (rule length_outcomes)
  have "length (progress ?w0) = length files" by simp
  moreover have "\<forall>j. 0 \<le> j \<and> j < length files \<longrightarrow> progress ?w0 ! j = new_task (files ! j)"
    by simp
  ultimately have loop:
    "progress (onDrop_loop ?u files 0 ?w0) =
       take 0 (progress ?w0) @ map2 task_for (drop 0 files) (outcomes ?u (backend ?w0) (drop 0 files)) \<and>
     reported (onDrop_loop ?u files 0 ?w0) =
       reported ?w0 @ successes (outcomes ?u (backend ?w0) (drop 0 files)) \<and>
     refreshTrigger (onDrop_loop ?u files 0 ?w0) =
       refreshTrigger ?w0 + length (successes (outcomes ?u (backend ?w0) (drop 0 files))) \<and>
     uploading (onDrop_loop ?u files 0 ?w0) = uploading ?w0"
    by (rule loop_result)
  have p: "progress (onDrop ?u files w) = map2 task_for files ?rs"
    using loop by (simp add: onDrop_def)
  have st: "map status (progress (onDrop ?u files w)) =
      map (\<lambda>r. if isl r then Error else Success) ?rs"
    unfolding p by (rule map_status_task_for) (simp add: lr)
  have all_terminal: "list_all (\<lambda>t. terminal (status t)) (progress (onDrop ?u files w))"
  proof -
    have "list_all terminal (map status (progress (onDrop ?u files w)))"
      unfolding st by (auto simp: list_all_iff terminal_def)
    then show ?thesis by (simp add: list_all_iff)
  qed
  have len: "length (progress (onDrop ?u files w)) = length files"
    unfolding p using lr by simp
  have cl: "map fst (drop (length (calls w)) (calls (onDrop ?u files w))) = files"
    using onDrop_calls [of ?u files w] by auto
  have rep: "reported (onDrop ?u files w) = reported w @ successes ?rs"
    using loop by (simp add: onDrop_def)
  have cnt: "length (successes ?rs) = length files - failures ?rs"
    using successes_failures [of ?rs] lr by simp
  have rt: "refreshTrigger (onDrop ?u files w) = refreshTrigger w + (length files - failures ?rs)"
    using loop cnt by (simp add: onDrop_def)
  have up: "\<not> uploading (onDrop ?u files w)" by (simp add: onDrop_def)
  from p st all_terminal len cl rep cnt rt up show ?thesis by blast
qed


theorem onDrop_batch_outcome_witness:
  "progress (onDrop sample_uploadDocument
        [\<lparr>file_name = ''a.pdf'', file_body = ''%PDF''\<rparr>,
         \<lparr>file_name = ''b.pdf'', file_body = []\<rparr>,
         \<lparr>file_name = ''c.pdf'', file_body = ''%PDF-1.7''\<rparr>]
        \<lparr>backend = 0, uploading = False, progress = [], calls = [], reported = [],
          refreshTrigger = 0\<rparr>) =
     [\<lparr>name = ''a.pdf'', status = Success, task_id = Some 0, task_error = None\<rparr>,
      \<lparr>name = ''b.pdf'', status = Error, task_id = None,
       task_error = Some ''Request failed with status code 413''\<rparr>,
      \<lparr>name = ''c.pdf'', status = Success, task_id = Some 2, task_error = None\<rparr>] \<and>
   map doc_id (reported (onDrop sample_uploadDocument
        [\<lparr>file_name = ''a.pdf'', file_body = ''%PDF''\<rparr>,
         \<lparr>file_name = ''b.pdf'', file_body = []\<rparr>,
         \<lparr>file_name = ''c.pdf'', file_body = ''%PDF-1.7''\<rparr>]
        \<lparr>backend = 0, uploading = False, progress = [], calls = [], reported = [],
          refreshTrigger = 0\<rparr>)) = [0, 2] \<and>
   refreshTrigger (onDrop sample_uploadDocument
        [\<lparr>file_name = ''a.pdf'', file_body = ''%PDF''\<rparr>,
         \<lparr>file_name = ''b.pdf'', file_body = []\<rparr>,
         \<lparr>file_name = ''c.pdf'', file_body = ''%PDF-1.7''\<rparr>]
        \<lparr>backend = 0, uploading = False, progress = [], calls = [], reported = [],
          refreshTrigger = 0\<rparr>) = 2"
  using onDrop_batch_outcome [of sample_uploadDocument
        "[\<lparr>file_name = ''a.pdf'', file_body = ''%PDF''\<rparr>,
         \<lparr>file_name = ''b.pdf'', file_body = []\<rparr>,
         \<lparr>file_name = ''c.pdf'', file_body = ''%PDF-1.7''\<rparr>]"
        "\<lparr>backend = 0, uploading = False, progress = [], calls = [], reported = [],
          refreshTrigger = 0\<rparr>"]
  by (simp add: sample_uploadDocument_def task_for_def successes_def failures_def)



end
